theory Spec2Isabelle
  imports Complex_Main "HOL-Library.Sublist" "HOL-Library.AList"
begin

section \<open>The knowledge store of antigravity-mcp-server\<close>

text \<open>
  A shallow embedding of the knowledge tool (schema, storage helpers, search helpers and
  the two handlers \<open>handleSaveKnowledge\<close> and \<open>handleSearchKnowledge\<close>).

  Conventions of the embedding.
  \<^item> A JavaScript string is a \<open>string\<close>: a list of code units, each below 256
    (the Latin-1 range). \<open>length\<close> and \<open>take\<close> count code units, as \<open>.length\<close> and
    \<open>.substring\<close> do.
  \<^item> A JavaScript number that only ever holds a sum of small integers (the score) is an
    \<open>int\<close>. A number that the caller supplies (the limit) is a \<open>JSNumber\<close>: a rational
    (every finite double is one), an infinity or NaN.
  \<^item> An optional property or argument (\<open>undefined\<close>) is an \<open>option\<close>. The handlers receive
    the raw arguments of the call: nothing between the dispatcher and the handler checks them
    against the schema, so \<open>title\<close> and \<open>content\<close> may be absent at run time too.
  \<^item> An exception is a value \<open>Inl e\<close> of a sum type.
  \<^item> The files under the knowledge directory are the state: one record per id and one index.
\<close>

subsection \<open>Characters and strings\<close>

text \<open>\<open>String.prototype.toLowerCase\<close> on one Latin-1 code unit: A-Z and the accented
  capitals U+00C0 to U+00DE (the multiplication sign U+00D7 apart) move up by 32.\<close>

definition toLowerCase_char :: "char \<Rightarrow> char" where
  "toLowerCase_char c =
     (let n = (of_char c :: nat)
      in if (65 \<le> n \<and> n \<le> 90) \<or> (192 \<le> n \<and> n \<le> 222 \<and> n \<noteq> 215)
         then char_of (n + 32) else c)"

definition toLowerCase :: "string \<Rightarrow> string" where
  "toLowerCase s = map toLowerCase_char s"

text \<open>The regular expression class \<open>\w\<close>: \<open>[A-Za-z0-9_]\<close>.\<close>

definition isWordChar :: "char \<Rightarrow> bool" where
  "isWordChar c =
     (let n = (of_char c :: nat)
      in (65 \<le> n \<and> n \<le> 90) \<or> (97 \<le> n \<and> n \<le> 122) \<or> (48 \<le> n \<and> n \<le> 57) \<or> n = 95)"

text \<open>The regular expression class \<open>\s\<close> below 256: tab, line feed, vertical tab, form
  feed, carriage return, space and the no-break space.\<close>

definition isSpaceChar :: "char \<Rightarrow> bool" where
  "isSpaceChar c =
     (let n = (of_char c :: nat)
      in (9 \<le> n \<and> n \<le> 13) \<or> n = 32 \<or> n = 160)"

text \<open>\<open>.replace(/[^\w\s]/g, " ")\<close>\<close>

definition replaceNonWord :: "string \<Rightarrow> string" where
  "replaceNonWord s = map (\<lambda>c. if \<not> isWordChar c \<and> \<not> isSpaceChar c then CHR '' '' else c) s"

text \<open>\<open>.split(/\s+/)\<close>: the pieces between maximal runs of white space. A run at the start or
  at the end of the string leaves an empty piece there, and the empty string splits into one
  empty piece. \<open>cur\<close> is the piece being read, reversed.\<close>

function splitSpaces :: "string \<Rightarrow> string \<Rightarrow> string list" where
  "splitSpaces cur [] = [rev cur]"
| "splitSpaces cur (c # cs) =
     (if isSpaceChar c then rev cur # splitSpaces [] (dropWhile isSpaceChar cs)
      else splitSpaces (c # cur) cs)"
  by pat_completeness auto
termination
  by (relation "measure (\<lambda>(cur, s). length s)")
     (auto simp: less_Suc_eq_le length_dropWhile_le)

definition tokenize :: "string \<Rightarrow> string list" where
  "tokenize text =
     filter (\<lambda>token. length token > 0) (splitSpaces [] (replaceNonWord (toLowerCase text)))"

text \<open>\<open>Array.prototype.join\<close>\<close>

fun join :: "string \<Rightarrow> string list \<Rightarrow> string" where
  "join sep [] = []"
| "join sep [x] = x"
| "join sep (x # y # ys) = x @ sep @ join sep (y # ys)"

text \<open>\<open>s.includes(q)\<close>: \<open>q\<close> occurs in \<open>s\<close> as a contiguous run.\<close>

fun includes_str :: "string \<Rightarrow> string \<Rightarrow> bool" where
  "includes_str [] q = (q = [])"
| "includes_str (c # cs) q = (prefix q (c # cs) \<or> includes_str cs q)"

text \<open>A JavaScript number. A JSON number that overflows parses to an infinity.\<close>

datatype JSNumber = Finite rat | PosInfinity | NegInfinity | NaN

datatype IntegerOrInfinity = Whole int | PlusInf | MinusInf

text \<open>The abstract operation \<open>ToIntegerOrInfinity\<close>: NaN is 0, a finite number loses its
  fraction (it is truncated toward zero), an infinity stays.\<close>

fun toIntegerOrInfinity :: "JSNumber \<Rightarrow> IntegerOrInfinity" where
  "toIntegerOrInfinity NaN = Whole 0"
| "toIntegerOrInfinity PosInfinity = PlusInf"
| "toIntegerOrInfinity NegInfinity = MinusInf"
| "toIntegerOrInfinity (Finite q) = Whole (if q < 0 then \<lceil>q\<rceil> else \<lfloor>q\<rfloor>)"

text \<open>A bound of \<open>slice\<close> against the length: a negative bound counts from the end, and the
  result is clamped to the array.\<close>

fun relativeIndex :: "int \<Rightarrow> IntegerOrInfinity \<Rightarrow> int" where
  "relativeIndex len MinusInf = 0"
| "relativeIndex len (Whole i) = (if i < 0 then max (len + i) 0 else min i len)"
| "relativeIndex len PlusInf = len"

text \<open>\<open>Array.prototype.slice(start, stop)\<close>: the elements from the first bound up to the
  second, none when the second is not beyond the first.\<close>

definition slice :: "'a list \<Rightarrow> JSNumber \<Rightarrow> JSNumber \<Rightarrow> 'a list" where
  "slice xs start stop =
     (let len = int (length xs);
          k = relativeIndex len (toIntegerOrInfinity start);
          final = relativeIndex len (toIntegerOrInfinity stop)
      in take (nat (final - k)) (drop (nat k) xs))"

subsection \<open>Data model\<close>

datatype Scope = Global | Project

datatype SearchScope = ScopeGlobal | ScopeProject | ScopeAll

datatype error = TypeError | WriteError

text \<open>\<open>interface KnowledgeItem\<close>, as the object exists at run time and in its JSON file.\<close>

record KnowledgeItem =
  ident :: string
  title :: "string option"
  content :: "string option"
  tags :: "string list"
  scope :: Scope
  projectPath :: "string option"
  createdAt :: string
  updatedAt :: string

text \<open>\<open>interface KnowledgeIndex\<close>. The keys of \<open>items\<close> are enumerated in insertion order
  (a UUID is never a canonical array index, which would come first), so the object is an
  association list.\<close>

record KnowledgeIndex =
  items :: "(string \<times> KnowledgeItem) list"
  lastUpdated :: string

record SearchResult =
  res_item :: KnowledgeItem
  res_score :: int

text \<open>The arguments of \<open>save_knowledge\<close>.\<close>

record SaveKnowledgeInput =
  in_title :: "string option"
  in_content :: "string option"
  in_tags :: "string list option"
  in_scope :: "Scope option"
  in_projectPath :: "string option"

text \<open>The arguments of \<open>search_knowledge\<close>.\<close>

record SearchKnowledgeInput =
  query :: string
  q_tags :: "string list option"
  q_scope :: "SearchScope option"
  q_limit :: "JSNumber option"

text \<open>The knowledge directory: \<open>files id\<close> is the parsed content of \<open>id.json\<close>, and \<open>index\<close>
  that of \<open>index.json\<close>; \<open>None\<close> is a file that is missing or does not parse.\<close>

record Store =
  files :: "string \<rightharpoonup> KnowledgeItem"
  index :: "KnowledgeIndex option"

text \<open>What a call of \<open>handleSaveKnowledge\<close> reads from its environment: the clock, the
  random id, and whether each of its two writes succeeds.\<close>

record Env =
  now :: string
  uuid :: string
  recordWriteOk :: bool
  indexWriteOk :: bool

definition emptyStore :: Store where
  "emptyStore = \<lparr>files = Map.empty, index = None\<rparr>"

subsection \<open>Storage helpers\<close>

definition loadIndex :: "string \<Rightarrow> Store \<Rightarrow> KnowledgeIndex" where
  "loadIndex timestamp st =
     (case index st of
        Some ix \<Rightarrow> ix
      | None \<Rightarrow> \<lparr>items = [], lastUpdated = timestamp\<rparr>)"

definition saveIndex :: "bool \<Rightarrow> KnowledgeIndex \<Rightarrow> Store \<Rightarrow> error + Store" where
  "saveIndex ok ix st = (if ok then Inr (st\<lparr>index := Some ix\<rparr>) else Inl WriteError)"

definition saveKnowledgeFile :: "bool \<Rightarrow> KnowledgeItem \<Rightarrow> Store \<Rightarrow> error + Store" where
  "saveKnowledgeFile ok it st =
     (if ok then Inr (st\<lparr>files := (files st)(ident it \<mapsto> it)\<rparr>) else Inl WriteError)"

definition loadKnowledgeFile :: "Store \<Rightarrow> string \<Rightarrow> KnowledgeItem option" where
  "loadKnowledgeFile st i = files st i"

subsection \<open>Search helpers\<close>

text \<open>\<open>tokenize(item.title)\<close> and \<open>tokenize(item.content)\<close> call \<open>toLowerCase\<close> on the
  property: a TypeError when it is absent. Each \<open>for\<close> loop is a \<open>fold\<close> over the array it
  walks, with \<open>score\<close> as the accumulator.\<close>

definition calculateRelevanceScore :: "KnowledgeItem \<Rightarrow> string list \<Rightarrow> error + int" where
  "calculateRelevanceScore it queryTokens =
     (case title it of
        None \<Rightarrow> Inl TypeError
      | Some ti \<Rightarrow>
          (case content it of
             None \<Rightarrow> Inl TypeError
           | Some co \<Rightarrow>
               (let titleTokens = tokenize ti;
                    contentTokens = tokenize co;
                    tagTokens = map toLowerCase (tags it)
                in Inr (fold (\<lambda>queryToken score.
                          let score = fold (\<lambda>titleToken score.
                                              if titleToken = queryToken then score + 10
                                              else if includes_str titleToken queryToken
                                              then score + 5
                                              else score)
                                           titleTokens score;
                              score = fold (\<lambda>tagToken score.
                                              if tagToken = queryToken then score + 8
                                              else if includes_str tagToken queryToken
                                              then score + 4
                                              else score)
                                           tagTokens score;
                              score = fold (\<lambda>contentToken score.
                                              if contentToken = queryToken then score + 2
                                              else if includes_str contentToken queryToken
                                              then score + 1
                                              else score)
                                           contentTokens score
                          in score)
                        queryTokens 0))))"

text \<open>\<open>!projectPath\<close> holds for an absent path and for the empty string.\<close>

definition filterByScope :: "KnowledgeItem \<Rightarrow> SearchScope \<Rightarrow> string option \<Rightarrow> bool" where
  "filterByScope it sc path =
     (if sc = ScopeAll then True
      else if sc = ScopeGlobal then scope it = Global
      else if sc = ScopeProject then
        (if path = None \<or> path = Some [] then scope it = Project
         else scope it = Project \<and> projectPath it = path)
      else True)"

definition filterByTags :: "KnowledgeItem \<Rightarrow> string list option \<Rightarrow> bool" where
  "filterByTags it tgs =
     (case tgs of
        None \<Rightarrow> True
      | Some ts \<Rightarrow>
          if length ts = 0 then True
          else (let itemTagsLower = map toLowerCase (tags it)
                in list_ex (\<lambda>tag. toLowerCase tag \<in> set itemTagsLower) ts))"

subsection \<open>Handlers\<close>

text \<open>The object literal that \<open>handleSaveKnowledge\<close> builds from its arguments.\<close>

definition newItem :: "Env \<Rightarrow> SaveKnowledgeInput \<Rightarrow> KnowledgeItem" where
  "newItem env input =
     \<lparr>ident = uuid env,
      title = in_title input,
      content = in_content input,
      tags = (case in_tags input of None \<Rightarrow> [] | Some ts \<Rightarrow> ts),
      scope = (case in_scope input of None \<Rightarrow> Global | Some s \<Rightarrow> s),
      projectPath = in_projectPath input,
      createdAt = now env,
      updatedAt = now env\<rparr>"

text \<open>\<open>handleSaveKnowledge\<close> returns the store as it leaves it, also when it throws: the
  record is written before the index is read, and \<open>item.content.substring(0, 200)\<close> is a
  TypeError when \<open>content\<close> is absent. An assignment to \<open>index.items[id]\<close> replaces the
  value of a key that exists and appends a new key otherwise. The confirmation text is not
  modelled: a successful call returns the id that the text reports.\<close>

definition handleSaveKnowledge ::
    "Env \<Rightarrow> SaveKnowledgeInput \<Rightarrow> Store \<Rightarrow> (error + string) \<times> Store" where
  "handleSaveKnowledge env input st =
     (let timestamp = now env;
          new_id = uuid env;
          new_item = newItem env input
      in case saveKnowledgeFile (recordWriteOk env) new_item st of
           Inl e \<Rightarrow> (Inl e, st)
         | Inr st1 \<Rightarrow>
             (let ix = loadIndex timestamp st1
              in case content new_item of
                   None \<Rightarrow> (Inl TypeError, st1)
                 | Some c \<Rightarrow>
                     (let ix' = ix\<lparr>items := AList.update new_id
                                              (new_item\<lparr>content := Some (take 200 c)\<rparr>)
                                              (items ix),
                                    lastUpdated := timestamp\<rparr>
                      in case saveIndex (indexWriteOk env) ix' st1 of
                           Inl e \<Rightarrow> (Inl e, st1)
                         | Inr st2 \<Rightarrow> (Inr new_id, st2))))"

text \<open>The \<open>for\<close> loop of \<open>handleSearchKnowledge\<close> over \<open>Object.entries(index.items)\<close>;
  \<open>results\<close> is the array it pushes to. \<open>filterByScope\<close> is called without a path.\<close>

fun collectResults ::
    "Store \<Rightarrow> SearchScope \<Rightarrow> string list option \<Rightarrow> string list \<Rightarrow>
     (string \<times> KnowledgeItem) list \<Rightarrow> SearchResult list \<Rightarrow> error + SearchResult list" where
  "collectResults st sc tgs queryTokens [] results = Inr results"
| "collectResults st sc tgs queryTokens ((i, indexedItem) # entries) results =
     (case loadKnowledgeFile st i of
        None \<Rightarrow> collectResults st sc tgs queryTokens entries results
      | Some fullItem \<Rightarrow>
          if \<not> filterByScope fullItem sc None
          then collectResults st sc tgs queryTokens entries results
          else if \<not> filterByTags fullItem tgs
          then collectResults st sc tgs queryTokens entries results
          else (case calculateRelevanceScore fullItem queryTokens of
                  Inl e \<Rightarrow> Inl e
                | Inr score \<Rightarrow>
                    if score > 0
                    then collectResults st sc tgs queryTokens entries
                           (results @ [\<lparr>res_item = fullItem, res_score = score\<rparr>])
                    else collectResults st sc tgs queryTokens entries results))"

text \<open>\<open>results.sort((a, b) => b.score - a.score)\<close>: a stable sort, highest score first.\<close>

definition sortResults :: "SearchResult list \<Rightarrow> SearchResult list" where
  "sortResults results = sort_key (\<lambda>r. - res_score r) results"

text \<open>\<open>handleSearchKnowledge\<close> returns \<open>limitedResults\<close>, which the text it builds lists
  in order (\<open>No knowledge items found\<close> when it is empty). The limit is whatever number
  the caller sent; \<open>slice\<close> truncates it.\<close>

definition handleSearchKnowledge ::
    "string \<Rightarrow> SearchKnowledgeInput \<Rightarrow> Store \<Rightarrow> error + SearchResult list" where
  "handleSearchKnowledge timestamp input st =
     (let ix = loadIndex timestamp st;
          queryTokens = tokenize (query input);
          limit = (case q_limit input of None \<Rightarrow> Finite 10 | Some l \<Rightarrow> l);
          sc = (case q_scope input of None \<Rightarrow> ScopeAll | Some s \<Rightarrow> s)
      in case collectResults st sc (q_tags input) queryTokens (items ix) [] of
           Inl e \<Rightarrow> Inl e
         | Inr results \<Rightarrow> Inr (slice (sortResults results) (Finite 0) limit))"

text \<open>A run of the store: the calls it serves, in order. A search writes nothing.\<close>

datatype Call = Save Env SaveKnowledgeInput | Search string SearchKnowledgeInput

fun step :: "Call \<Rightarrow> Store \<Rightarrow> Store" where
  "step (Save env input) st = snd (handleSaveKnowledge env input st)"
| "step (Search timestamp input) st = st"

fun callIds :: "Call list \<Rightarrow> string list" where
  "callIds [] = []"
| "callIds (Save env input # cs) = uuid env # callIds cs"
| "callIds (Search timestamp input # cs) = callIds cs"

definition run :: "Call list \<Rightarrow> Store \<Rightarrow> Store" where
  "run calls st = fold step calls st"

subsection \<open>Notions of the specification\<close>

text \<open>The points of one (field token, query token) pair, as the specification words them:
  \<open>exact\<close> when the two are equal, \<open>partial\<close> when the field token contains the query token
  without being equal to it, nothing otherwise.\<close>

definition pairPoints :: "int \<Rightarrow> int \<Rightarrow> string \<Rightarrow> string \<Rightarrow> int" where
  "pairPoints exact partial fieldToken queryToken =
     (if fieldToken = queryToken then exact
      else if includes_str fieldToken queryToken \<and> fieldToken \<noteq> queryToken then partial
      else 0)"

text \<open>The score of the specification: the sum over all pairs, with weights 10 and 5 for the
  title, 8 and 4 for the tags, 2 and 1 for the content.\<close>

definition specScore ::
    "string list \<Rightarrow> string list \<Rightarrow> string list \<Rightarrow> string list \<Rightarrow> int" where
  "specScore titleTokens tagTokens contentTokens queryTokens =
     (\<Sum>q\<leftarrow>queryTokens.
        (\<Sum>t\<leftarrow>titleTokens. pairPoints 10 5 t q)
      + (\<Sum>t\<leftarrow>tagTokens. pairPoints 8 4 t q)
      + (\<Sum>t\<leftarrow>contentTokens. pairPoints 2 1 t q))"

text \<open>No pair of a field token and a query token matches, exactly or by containment.\<close>

definition noPairMatches :: "string list \<Rightarrow> string list \<Rightarrow> bool" where
  "noPairMatches fieldTokens queryTokens =
     list_all (\<lambda>q. list_all (\<lambda>t. \<not> (t = q \<or> includes_str t q)) fieldTokens) queryTokens"

text \<open>A token as \<open>tokenize\<close> produces them: not empty, made of word characters that
  \<open>toLowerCase\<close> leaves alone.\<close>

definition cleanToken :: "string \<Rightarrow> bool" where
  "cleanToken t = (t \<noteq> [] \<and> list_all (\<lambda>c. isWordChar c \<and> toLowerCase_char c = c) t)"

text \<open>The content \<open>p\<close> of an index entry against the content \<open>c\<close> of the full record: a
  prefix, the whole of it up to 200 characters and its first 200 characters beyond.\<close>

definition contentPrefixOk :: "string \<Rightarrow> string \<Rightarrow> bool" where
  "contentPrefixOk p c = (prefix p c \<and> (if length c \<le> 200 then p = c else p = take 200 c))"

definition entryConsistent :: "Store \<Rightarrow> string \<times> KnowledgeItem \<Rightarrow> bool" where
  "entryConsistent st entry =
     (case files st (fst entry) of
        None \<Rightarrow> False
      | Some fullItem \<Rightarrow>
          (case content (snd entry) of
             None \<Rightarrow> False
           | Some p \<Rightarrow>
               (case content fullItem of
                  None \<Rightarrow> False
                | Some c \<Rightarrow> contentPrefixOk p c)))"

text \<open>Every entry of the index has its record, and its content is the record's, truncated.\<close>

definition indexConsistent :: "Store \<Rightarrow> bool" where
  "indexConsistent st =
     (case index st of
        None \<Rightarrow> True
      | Some ix \<Rightarrow> list_all (entryConsistent st) (items ix))"

text \<open>The records that a search reads all have a title and a content, as the interface
  \<open>KnowledgeItem\<close> declares them.\<close>

definition recordsWellTyped :: "Store \<Rightarrow> (string \<times> KnowledgeItem) list \<Rightarrow> bool" where
  "recordsWellTyped st entries =
     list_all (\<lambda>entry. case files st (fst entry) of
                         None \<Rightarrow> True
                       | Some fullItem \<Rightarrow> title fullItem \<noteq> None \<and> content fullItem \<noteq> None)
              entries"

text \<open>\<open>input.scope ?? "all"\<close>\<close>

definition searchScope :: "SearchKnowledgeInput \<Rightarrow> SearchScope" where
  "searchScope input = (case q_scope input of None \<Rightarrow> ScopeAll | Some s \<Rightarrow> s)"

text \<open>What the loop of the search has checked of a result it pushed.\<close>

definition matched ::
    "SearchScope \<Rightarrow> string list option \<Rightarrow> string list \<Rightarrow> SearchResult \<Rightarrow> bool" where
  "matched sc tgs queryTokens r =
     (filterByScope (res_item r) sc None \<and> filterByTags (res_item r) tgs
      \<and> calculateRelevanceScore (res_item r) queryTokens = Inr (res_score r)
      \<and> 0 < res_score r)"

subsection \<open>Sample data\<close>

definition env1 :: Env where
  "env1 = \<lparr>now = ''t0'', uuid = ''id-1'', recordWriteOk = True, indexWriteOk = True\<rparr>"

definition input1 :: SaveKnowledgeInput where
  "input1 = \<lparr>in_title = Some ''Naming Conventions'',
             in_content = Some ''Use camelCase for variables'',
             in_tags = Some [''Style''], in_scope = None, in_projectPath = None\<rparr>"

definition item1 :: KnowledgeItem where
  "item1 = \<lparr>ident = ''id-1'', title = Some ''Naming Conventions'',
            content = Some ''Use camelCase for variables'', tags = [''Style''],
            scope = Global, projectPath = None,
            createdAt = ''t0'', updatedAt = ''t0''\<rparr>"

definition env2 :: Env where
  "env2 = \<lparr>now = ''t1'', uuid = ''id-2'', recordWriteOk = True, indexWriteOk = True\<rparr>"

definition input2 :: SaveKnowledgeInput where
  "input2 = \<lparr>in_title = Some ''Naming files'', in_content = Some ''kebab-case'',
             in_tags = None, in_scope = Some Project, in_projectPath = Some ''/a''\<rparr>"

definition item2 :: KnowledgeItem where
  "item2 = \<lparr>ident = ''id-2'', title = Some ''Naming files'', content = Some ''kebab-case'',
            tags = [], scope = Project, projectPath = Some ''/a'',
            createdAt = ''t1'', updatedAt = ''t1''\<rparr>"

definition itemAB :: KnowledgeItem where
  "itemAB = item1\<lparr>tags := [''a'', ''b'']\<rparr>"

definition store1 :: Store where
  "store1 = \<lparr>files = [''id-1'' \<mapsto> item1],
             index = Some \<lparr>items = [(''id-1'', item1)], lastUpdated = ''t0''\<rparr>\<rparr>"

definition store2 :: Store where
  "store2 = \<lparr>files = [''id-1'' \<mapsto> item1, ''id-2'' \<mapsto> item2],
             index = Some \<lparr>items = [(''id-1'', item1), (''id-2'', item2)],
                           lastUpdated = ''t1''\<rparr>\<rparr>"

definition searchNaming ::
    "SearchScope option \<Rightarrow> JSNumber option \<Rightarrow> SearchKnowledgeInput" where
  "searchNaming sc l = \<lparr>query = ''naming'', q_tags = None, q_scope = sc, q_limit = l\<rparr>"

definition searchFiles :: "JSNumber option \<Rightarrow> SearchKnowledgeInput" where
  "searchFiles l = \<lparr>query = ''naming files'', q_tags = None, q_scope = None, q_limit = l\<rparr>"

definition searchFor :: "string \<Rightarrow> SearchKnowledgeInput" where
  "searchFor q = \<lparr>query = q, q_tags = None, q_scope = None, q_limit = None\<rparr>"

definition inputNoTitle :: SaveKnowledgeInput where
  "inputNoTitle = \<lparr>in_title = None, in_content = Some ''camelCase'',
                   in_tags = None, in_scope = None, in_projectPath = None\<rparr>"

definition inputNoContent :: SaveKnowledgeInput where
  "inputNoContent = \<lparr>in_title = Some ''Naming'', in_content = None,
                     in_tags = None, in_scope = None, in_projectPath = None\<rparr>"

definition inputGlobalWithPath :: SaveKnowledgeInput where
  "inputGlobalWithPath = \<lparr>in_title = Some ''Naming'', in_content = Some ''camelCase'',
                          in_tags = None, in_scope = None, in_projectPath = Some ''/a''\<rparr>"

definition inputProjectNoPath :: SaveKnowledgeInput where
  "inputProjectNoPath = \<lparr>in_title = Some ''Naming'', in_content = Some ''camelCase'',
                         in_tags = None, in_scope = Some Project, in_projectPath = None\<rparr>"

definition calls2 :: "Call list" where
  "calls2 = [Save env1 input1, Search ''t1'' (searchFor ''naming''), Save env2 input2]"

section \<open>Properties\<close>

subsection \<open>The tokenizer\<close>

lemma toLowerCase_char_idem: "toLowerCase_char (toLowerCase_char c) = toLowerCase_char c"
  by (auto simp: toLowerCase_char_def Let_def)

lemma word_not_space: "isWordChar c \<Longrightarrow> \<not> isSpaceChar c"
  by (auto simp: isWordChar_def isSpaceChar_def Let_def)

lemma space_is_space: "isSpaceChar (CHR '' '')"
  by (simp add: isSpaceChar_def)

lemma splitSpaces_append:
  "\<forall>c\<in>set t. \<not> isSpaceChar c \<Longrightarrow> splitSpaces cur (t @ s) = splitSpaces (rev t @ cur) s"
  by (induction t arbitrary: cur) auto

text \<open>Every piece of a split is made of characters of the input, none of them white space.\<close>

lemma splitSpaces_pieces:
  "\<forall>c\<in>set cur. \<not> isSpaceChar c \<Longrightarrow> t \<in> set (splitSpaces cur s) \<Longrightarrow>
     set t \<subseteq> set cur \<union> set s \<and> (\<forall>c\<in>set t. \<not> isSpaceChar c)"
proof (induction cur s rule: splitSpaces.induct)
  case (1 cur)
  then show ?case by auto
next
  case (2 cur c cs)
  show ?case
  proof (cases "isSpaceChar c")
    case True
    from "2.prems"(2) True
    have "t = rev cur \<or> t \<in> set (splitSpaces [] (dropWhile isSpaceChar cs))" by simp
    then show ?thesis
    proof
      assume "t = rev cur"
      with "2.prems"(1) show ?thesis by auto
    next
      assume a: "t \<in> set (splitSpaces [] (dropWhile isSpaceChar cs))"
      have "set t \<subseteq> set [] \<union> set (dropWhile isSpaceChar cs) \<and> (\<forall>c\<in>set t. \<not> isSpaceChar c)"
        using "2.IH"(1)[OF True _ a] by simp
      moreover have "set (dropWhile isSpaceChar cs) \<subseteq> set cs"
        by (auto dest: set_dropWhileD)
      ultimately show ?thesis by auto
    qed
  next
    case False
    from "2.prems"(2) False have a: "t \<in> set (splitSpaces (c # cur) cs)" by simp
    have b: "\<forall>x\<in>set (c # cur). \<not> isSpaceChar x" using False "2.prems"(1) by simp
    have "set t \<subseteq> set (c # cur) \<union> set cs \<and> (\<forall>c\<in>set t. \<not> isSpaceChar c)"
      using "2.IH"(2)[OF False b a] .
    then show ?thesis by auto
  qed
qed

lemma replaceNonWord_lower_chars:
  "c \<in> set (replaceNonWord (toLowerCase s)) \<Longrightarrow> \<not> isSpaceChar c \<Longrightarrow>
     isWordChar c \<and> toLowerCase_char c = c"
  by (auto simp: replaceNonWord_def toLowerCase_def toLowerCase_char_idem space_is_space
           split: if_splits)

lemma tokenize_clean: "t \<in> set (tokenize s) \<Longrightarrow> cleanToken t"
proof -
  assume a: "t \<in> set (tokenize s)"
  then have ne: "t \<noteq> []"
    and mem: "t \<in> set (splitSpaces [] (replaceNonWord (toLowerCase s)))"
    by (auto simp: tokenize_def)
  have "set t \<subseteq> set [] \<union> set (replaceNonWord (toLowerCase s)) \<and> (\<forall>c\<in>set t. \<not> isSpaceChar c)"
    by (rule splitSpaces_pieces[OF _ mem]) simp
  then have "\<forall>c\<in>set t. isWordChar c \<and> toLowerCase_char c = c"
    using replaceNonWord_lower_chars[of _ s] by auto
  with ne show ?thesis by (simp add: cleanToken_def list_all_iff)
qed

lemma clean_fixed:
  "list_all (\<lambda>c. isWordChar c \<and> toLowerCase_char c = c) t \<Longrightarrow> replaceNonWord (toLowerCase t) = t"
  by (induction t) (auto simp: replaceNonWord_def toLowerCase_def)

lemma norm_append:
  "replaceNonWord (toLowerCase (a @ b)) =
     replaceNonWord (toLowerCase a) @ replaceNonWord (toLowerCase b)"
  by (simp add: replaceNonWord_def toLowerCase_def)

lemma norm_space:
  "replaceNonWord (toLowerCase (CHR '' '' # s)) = CHR '' '' # replaceNonWord (toLowerCase s)"
  by (simp add: replaceNonWord_def toLowerCase_def toLowerCase_char_def isSpaceChar_def)

text \<open>Lower-casing and replacing leave a joined list of clean tokens as it is.\<close>

lemma norm_join:
  "list_all cleanToken ts \<Longrightarrow> replaceNonWord (toLowerCase (join '' '' ts)) = join '' '' ts"
proof (induction "'' ''" ts rule: join.induct)
  case 1
  then show ?case by (simp add: replaceNonWord_def toLowerCase_def)
next
  case (2 x)
  then show ?case by (simp add: cleanToken_def clean_fixed)
next
  case (3 x y ys)
  then show ?case by (simp add: norm_append norm_space cleanToken_def clean_fixed)
qed

lemma clean_no_space: "cleanToken t \<Longrightarrow> \<forall>c\<in>set t. \<not> isSpaceChar c"
  by (auto simp: cleanToken_def list_all_iff word_not_space)

text \<open>Splitting a joined list of clean tokens gives the tokens back.\<close>

lemma split_join:
  "list_all cleanToken ts \<Longrightarrow>
     filter (\<lambda>token. length token > 0) (splitSpaces [] (join '' '' ts)) = ts"
proof (induction "'' ''" ts rule: join.induct)
  case 1
  then show ?case by simp
next
  case (2 x)
  then have "\<forall>c\<in>set x. \<not> isSpaceChar c" "x \<noteq> []"
    by (auto simp: clean_no_space cleanToken_def)
  then show ?case using splitSpaces_append[of x "[]" "[]"] by simp
next
  case (3 x y ys)
  then have x: "\<forall>c\<in>set x. \<not> isSpaceChar c" "x \<noteq> []" and y: "cleanToken y"
    by (auto simp: clean_no_space cleanToken_def)
  from y obtain d ds where yd: "y = d # ds" and d: "\<not> isSpaceChar d"
    by (cases y) (auto simp: cleanToken_def word_not_space)
  have "dropWhile isSpaceChar (join '' '' (y # ys)) = join '' '' (y # ys)"
    using yd d by (cases ys) auto
  then have "splitSpaces [] (join '' '' (x # y # ys)) = x # splitSpaces [] (join '' '' (y # ys))"
    using splitSpaces_append[OF x(1), of "[]" "'' '' @ join '' '' (y # ys)"]
    by (simp add: space_is_space)
  with 3 x show ?case by simp
qed

text \<open>
  \<^bold>\<open>C8.\<close> Tokenizing is idempotent under re-joining: for every string \<open>x\<close>, joining the tokens
  of \<open>x\<close> with one space and tokenizing the result gives the tokens of \<open>x\<close> again, where
  \<open>tokenize\<close> lower-cases, replaces every character that is neither a word character nor
  white space by a space, splits on runs of white space and drops the empty pieces.
\<close>

theorem tokenize_join_idempotent: "tokenize (join '' '' (tokenize x)) = tokenize x"
proof -
  have c: "list_all cleanToken (tokenize x)"
    using tokenize_clean by (auto simp: list_all_iff)
  show ?thesis
    unfolding tokenize_def[of "join '' '' (tokenize x)"] norm_join[OF c]
    by (rule split_join[OF c])
qed

subsection \<open>The relevance score\<close>

lemma field_loop_sum:
  "fold (\<lambda>fieldToken score.
           if fieldToken = q then score + exact
           else if includes_str fieldToken q then score + partial
           else score)
        toks s
   = s + (\<Sum>t\<leftarrow>toks. pairPoints exact partial t q)"
  by (induction toks arbitrary: s) (simp_all add: pairPoints_def)

lemma pairPoints_nonneg: "0 \<le> exact \<Longrightarrow> 0 \<le> partial \<Longrightarrow> 0 \<le> pairPoints exact partial t q"
  by (simp add: pairPoints_def)

lemma sum_pairPoints_nonneg:
  "0 \<le> exact \<Longrightarrow> 0 \<le> partial \<Longrightarrow> 0 \<le> (\<Sum>t\<leftarrow>toks. pairPoints exact partial t q)"
  by (intro sum_list_nonneg) (auto simp: pairPoints_nonneg)

lemma specScore_nonneg: "0 \<le> specScore ti tg co qs"
  unfolding specScore_def
  by (intro sum_list_nonneg) (auto intro!: add_nonneg_nonneg sum_pairPoints_nonneg)

lemma specScore_append:
  "specScore ti tg co (qs @ qs') = specScore ti tg co qs + specScore ti tg co qs'"
  by (simp add: specScore_def)

lemma sum_pairPoints_exact:
  "0 \<le> exact \<Longrightarrow> 0 \<le> partial \<Longrightarrow> q \<in> set toks \<Longrightarrow>
     exact \<le> (\<Sum>t\<leftarrow>toks. pairPoints exact partial t q)"
proof (induction toks)
  case Nil
  then show ?case by simp
next
  case (Cons a toks)
  have nn: "0 \<le> (\<Sum>t\<leftarrow>toks. pairPoints exact partial t q)"
    using Cons.prems by (simp add: sum_pairPoints_nonneg)
  show ?case
  proof (cases "a = q")
    case True
    then show ?thesis using nn by (simp add: pairPoints_def)
  next
    case False
    then have "q \<in> set toks" using Cons.prems by auto
    then have "exact \<le> (\<Sum>t\<leftarrow>toks. pairPoints exact partial t q)" using Cons by simp
    moreover have "0 \<le> pairPoints exact partial a q"
      using Cons.prems by (simp add: pairPoints_nonneg)
    ultimately show ?thesis by simp
  qed
qed

lemma specScore_single_title:
  assumes "t \<in> set ti"
  shows "10 \<le> specScore ti tg co [t]"
proof -
  have a: "10 \<le> (\<Sum>x\<leftarrow>ti. pairPoints 10 5 x t)"
    using assms by (intro sum_pairPoints_exact) auto
  have b: "0 \<le> (\<Sum>x\<leftarrow>tg. pairPoints 8 4 x t)" by (simp add: sum_pairPoints_nonneg)
  have c: "0 \<le> (\<Sum>x\<leftarrow>co. pairPoints 2 1 x t)" by (simp add: sum_pairPoints_nonneg)
  show ?thesis using a b c by (simp add: specScore_def)
qed

text \<open>The loop over the query tokens, its three inner loops chained.\<close>

lemma query_loop_sum:
  "fold (\<lambda>queryToken score.
           fold (\<lambda>contentToken score.
                   if contentToken = queryToken then score + 2
                   else if includes_str contentToken queryToken then score + 1
                   else score)
                co
                (fold (\<lambda>tagToken score.
                         if tagToken = queryToken then score + 8
                         else if includes_str tagToken queryToken then score + 4
                         else score)
                      tg
                      (fold (\<lambda>titleToken score.
                               if titleToken = queryToken then score + 10
                               else if includes_str titleToken queryToken then score + 5
                               else score)
                            ti score)))
        qs s
   = s + specScore ti tg co qs"
  unfolding specScore_def field_loop_sum
  by (induction qs arbitrary: s) simp_all

lemma calculateRelevanceScore_eq:
  "title it = Some ti \<Longrightarrow> content it = Some co \<Longrightarrow>
   calculateRelevanceScore it qs =
     Inr (specScore (tokenize ti) (map toLowerCase (tags it)) (tokenize co) qs)"
  by (simp add: calculateRelevanceScore_def query_loop_sum)

lemma item1_title: "title item1 = Some ''Naming Conventions''"
  by (simp add: item1_def)

lemma item1_content: "content item1 = Some ''Use camelCase for variables''"
  by (simp add: item1_def)

lemma item1_tags: "tags item1 = [''Style'']"
  by (simp add: item1_def)

lemma tokenize_item1_title: "tokenize ''Naming Conventions'' = [''naming'', ''conventions'']"
  by code_simp

text \<open>
  \<^bold>\<open>C1.\<close> For every knowledge item (one whose title and content are present) and every list
  of query tokens, the relevance score is the sum over all pairs of a query token and a field
  token of: 10 for a title token equal to the query token, else 5 for one that contains it
  without being equal; 8 for a tag, lower-cased and compared whole, equal to the query token,
  else 4 for one that contains it; 2 for a content token equal to it, else 1 for one that
  contains it. The result is a non-negative integer.
\<close>

theorem relevance_score_is_pair_sum:
  assumes "title it = Some ti" and "content it = Some co"
  shows "calculateRelevanceScore it queryTokens =
           Inr (specScore (tokenize ti) (map toLowerCase (tags it)) (tokenize co) queryTokens)
         \<and> 0 \<le> specScore (tokenize ti) (map toLowerCase (tags it)) (tokenize co) queryTokens"
  using assms by (simp add: calculateRelevanceScore_eq specScore_nonneg)

theorem relevance_score_is_pair_sum_witness:
  "title item1 = Some ''Naming Conventions''
   \<and> content item1 = Some ''Use camelCase for variables''
   \<and> calculateRelevanceScore item1 [''naming'', ''style'', ''case'', ''for''] = Inr 21"
proof -
  have v: "specScore (tokenize ''Naming Conventions'') [toLowerCase ''Style'']
             (tokenize ''Use camelCase for variables'') [''naming'', ''style'', ''case'', ''for'']
           = 21"
    by code_simp
  from relevance_score_is_pair_sum[OF item1_title item1_content,
         of "[''naming'', ''style'', ''case'', ''for'']"]
  show ?thesis by (simp add: item1_title item1_content item1_tags v)
qed

text \<open>
  \<^bold>\<open>C9.\<close> For every item and every list \<open>Q\<close> of query tokens, if \<open>t\<close> is equal to a token of
  the item's title, then the score of the item against \<open>Q\<close> with \<open>t\<close> appended is strictly
  greater than its score against \<open>Q\<close>.
\<close>

theorem exact_title_token_increases_score:
  assumes "title it = Some ti" and "content it = Some co" and "t \<in> set (tokenize ti)"
  shows "\<exists>a b. calculateRelevanceScore it Q = Inr a
             \<and> calculateRelevanceScore it (Q @ [t]) = Inr b \<and> a < b"
  using assms
    specScore_single_title[of t "tokenize ti" "map toLowerCase (tags it)" "tokenize co"]
  by (simp add: calculateRelevanceScore_eq specScore_append)

theorem exact_title_token_increases_score_witness:
  "''naming'' \<in> set (tokenize ''Naming Conventions'')
   \<and> (\<exists>a b. calculateRelevanceScore item1 [''style''] = Inr a
           \<and> calculateRelevanceScore item1 ([''style''] @ [''naming'']) = Inr b \<and> a < b)"
proof -
  have m: "''naming'' \<in> set (tokenize ''Naming Conventions'')"
    by (simp add: tokenize_item1_title)
  from exact_title_token_increases_score[OF item1_title item1_content m, of "[''style'']"] m
  show ?thesis by simp
qed

subsection \<open>Slicing from the start\<close>

lemma slice_default: "slice xs (Finite 0) (Finite 10) = take 10 xs"
  by (simp add: slice_def Let_def min_def)

text \<open>A limit of -1 or below drops as many matches from the end as its magnitude, truncated,
  says.\<close>

lemma slice_negative:
  "q \<le> - 1 \<Longrightarrow>
     slice xs (Finite 0) (Finite q) = take (nat (max (int (length xs) - \<lfloor>\<bar>q\<bar>\<rfloor>) 0)) xs"
proof -
  assume q: "q \<le> - 1"
  then have c: "\<lceil>q\<rceil> \<le> - 1" by (simp add: ceiling_le_iff)
  have a: "\<bar>q\<bar> = - q" using q by simp
  have f: "\<lfloor>- q\<rfloor> = - \<lceil>q\<rceil>" by (simp add: ceiling_def)
  have "slice xs (Finite 0) (Finite q) = take (nat (max (int (length xs) + \<lceil>q\<rceil>) 0)) xs"
    using q c by (simp add: slice_def Let_def)
  then show ?thesis unfolding a f by simp
qed

text \<open>A negative limit above -1 truncates to 0 and keeps nothing.\<close>

lemma slice_negative_fraction:
  "- 1 < q \<Longrightarrow> q < 0 \<Longrightarrow> slice xs (Finite 0) (Finite q) = []"
proof -
  assume q: "- 1 < q" "q < 0"
  then have "\<lceil>q\<rceil> = 0" by (simp add: ceiling_eq_iff)
  then show ?thesis using q by (simp add: slice_def Let_def)
qed

lemma slice_negative_infinity: "slice xs (Finite 0) NegInfinity = []"
  by (simp add: slice_def Let_def)

subsection \<open>Evaluating the sample data\<close>

lemma handleSaveKnowledge_ok:
  assumes "recordWriteOk env" and "indexWriteOk env" and "in_content input = Some c"
  shows "handleSaveKnowledge env input st =
           (Inr (uuid env),
            \<lparr>files = (files st)(uuid env \<mapsto> newItem env input),
             index = Some \<lparr>items = AList.update (uuid env)
                                     ((newItem env input)\<lparr>content := Some (take 200 c)\<rparr>)
                                     (items (loadIndex (now env) st)),
                           lastUpdated = now env\<rparr>\<rparr>)"
  using assms
  by (simp add: handleSaveKnowledge_def Let_def saveKnowledgeFile_def saveIndex_def
        loadIndex_def newItem_def split: option.splits)

lemma newItem1: "newItem env1 input1 = item1"
  by (simp add: newItem_def env1_def input1_def item1_def)

lemma newItem2: "newItem env2 input2 = item2"
  by (simp add: newItem_def env2_def input2_def item2_def)

lemma save1: "handleSaveKnowledge env1 input1 emptyStore = (Inr ''id-1'', store1)"
proof -
  have "handleSaveKnowledge env1 input1 emptyStore =
          (Inr (uuid env1),
           \<lparr>files = (files emptyStore)(uuid env1 \<mapsto> newItem env1 input1),
            index = Some \<lparr>items = AList.update (uuid env1)
                             ((newItem env1 input1)
                                \<lparr>content := Some (take 200 ''Use camelCase for variables'')\<rparr>)
                             (items (loadIndex (now env1) emptyStore)),
                          lastUpdated = now env1\<rparr>\<rparr>)"
    by (rule handleSaveKnowledge_ok) (simp_all add: env1_def input1_def)
  then show ?thesis
    by (simp add: newItem1 store1_def emptyStore_def loadIndex_def)
       (simp add: env1_def item1_def)
qed

lemma save2: "handleSaveKnowledge env2 input2 store1 = (Inr ''id-2'', store2)"
proof -
  have "handleSaveKnowledge env2 input2 store1 =
          (Inr (uuid env2),
           \<lparr>files = (files store1)(uuid env2 \<mapsto> newItem env2 input2),
            index = Some \<lparr>items = AList.update (uuid env2)
                             ((newItem env2 input2)\<lparr>content := Some (take 200 ''kebab-case'')\<rparr>)
                             (items (loadIndex (now env2) store1)),
                          lastUpdated = now env2\<rparr>\<rparr>)"
    by (rule handleSaveKnowledge_ok) (simp_all add: env2_def input2_def)
  then show ?thesis
    by (simp add: newItem2 store1_def store2_def loadIndex_def)
       (simp add: env2_def item2_def)
qed

lemma run_calls2: "run calls2 emptyStore = store2"
  by (simp add: run_def calls2_def save1 save2)

lemma item1_scope: "scope item1 = Global"
  by (simp add: item1_def)

lemma item2_scope: "scope item2 = Project"
  by (simp add: item2_def)

lemma item2_path: "projectPath item2 = Some ''/a''"
  by (simp add: item2_def)

lemma item2_title: "title item2 = Some ''Naming files''"
  by (simp add: item2_def)

lemma item2_content: "content item2 = Some ''kebab-case''"
  by (simp add: item2_def)

lemma item2_tags: "tags item2 = []"
  by (simp add: item2_def)

lemma store2_index: "items (loadIndex ts store2) = [(''id-1'', item1), (''id-2'', item2)]"
  by (simp add: loadIndex_def store2_def)

lemma store2_files:
  "loadKnowledgeFile store2 ''id-1'' = Some item1" "loadKnowledgeFile store2 ''id-2'' = Some item2"
  by (simp_all add: loadKnowledgeFile_def store2_def)

lemma score_naming:
  "calculateRelevanceScore item1 (tokenize ''naming'') = Inr 10"
  "calculateRelevanceScore item2 (tokenize ''naming'') = Inr 10"
  unfolding item1_def item2_def by code_simp+

lemma score_kebab:
  "calculateRelevanceScore item1 (tokenize ''kebab'') = Inr 0"
  "calculateRelevanceScore item2 (tokenize ''kebab'') = Inr 2"
  unfolding item1_def item2_def by code_simp+

lemma search_naming_global:
  "handleSearchKnowledge ts (searchNaming (Some ScopeGlobal) None) store2
   = Inr [\<lparr>res_item = item1, res_score = 10\<rparr>]"
  by (simp add: handleSearchKnowledge_def searchNaming_def store2_index store2_files
        filterByScope_def filterByTags_def item1_scope item2_scope score_naming
        sortResults_def slice_default)

lemma search_naming_project:
  "handleSearchKnowledge ts (searchNaming (Some ScopeProject) None) store2
   = Inr [\<lparr>res_item = item2, res_score = 10\<rparr>]"
  by (simp add: handleSearchKnowledge_def searchNaming_def store2_index store2_files
        filterByScope_def filterByTags_def item1_scope item2_scope score_naming
        sortResults_def slice_default)

lemma search_kebab:
  "handleSearchKnowledge ts (searchFor ''kebab'') store2 = Inr [\<lparr>res_item = item2, res_score = 2\<rparr>]"
  by (simp add: handleSearchKnowledge_def searchFor_def store2_index store2_files
        filterByScope_def filterByTags_def score_kebab sortResults_def slice_default)

subsection \<open>The index and the records\<close>

lemma contentPrefixOk_take: "contentPrefixOk (take 200 c) c"
  by (simp add: contentPrefixOk_def take_is_prefix)

lemma set_update_subset: "set (AList.update k v al) \<subseteq> insert (k, v) (set al)"
  by (induction al) auto

lemma entryConsistent_other_file:
  "entryConsistent st e \<Longrightarrow> i \<notin> dom (files st) \<Longrightarrow>
     entryConsistent (st\<lparr>files := (files st)(i \<mapsto> it)\<rparr>) e"
  by (auto simp: entryConsistent_def split: option.splits)

lemma entryConsistent_index_irrelevant:
  "entryConsistent (st\<lparr>index := x\<rparr>) e = entryConsistent st e"
  by (simp add: entryConsistent_def)

lemma indexConsistent_write_record:
  assumes "indexConsistent st" and "i \<notin> dom (files st)"
  shows "indexConsistent (st\<lparr>files := (files st)(i \<mapsto> it)\<rparr>)"
  using assms
  by (auto simp: indexConsistent_def list_all_iff entryConsistent_other_file
           split: option.splits)

lemma loadIndex_entries:
  "indexConsistent st \<Longrightarrow> e \<in> set (items (loadIndex ts st)) \<Longrightarrow> entryConsistent st e"
  by (auto simp: indexConsistent_def loadIndex_def list_all_iff split: option.splits)

lemma indexConsistent_empty: "indexConsistent emptyStore"
  by (simp add: indexConsistent_def emptyStore_def)

text \<open>What consistency says of one entry.\<close>

lemma indexConsistent_entry:
  assumes "indexConsistent st" and "index st = Some ix" and "(i, e) \<in> set (items ix)"
  shows "\<exists>fullItem c p. files st i = Some fullItem \<and> content fullItem = Some c
           \<and> content e = Some p \<and> prefix p c
           \<and> (length c \<le> 200 \<longrightarrow> p = c) \<and> (200 < length c \<longrightarrow> p = take 200 c)"
proof -
  from assms have "entryConsistent st (i, e)"
    by (simp add: indexConsistent_def list_all_iff)
  then show ?thesis
    by (auto simp: entryConsistent_def contentPrefixOk_def split: option.splits if_splits)
qed

text \<open>A save with an id that names no record yet keeps the index consistent, whether it
  succeeds or throws after its first write.\<close>

lemma handleSaveKnowledge_preserves:
  assumes inv: "indexConsistent st" and fresh: "uuid env \<notin> dom (files st)"
  shows "indexConsistent (snd (handleSaveKnowledge env input st))"
proof (cases "recordWriteOk env")
  case False
  then show ?thesis using inv by (simp add: handleSaveKnowledge_def saveKnowledgeFile_def)
next
  case True
  define st1 where "st1 = st\<lparr>files := (files st)(uuid env \<mapsto> newItem env input)\<rparr>"
  have inv1: "indexConsistent st1"
    unfolding st1_def by (rule indexConsistent_write_record[OF inv fresh])
  have w: "saveKnowledgeFile (recordWriteOk env) (newItem env input) st = Inr st1"
    using True by (simp add: saveKnowledgeFile_def st1_def newItem_def)
  show ?thesis
  proof (cases "in_content input")
    case None
    then show ?thesis using inv1 w by (simp add: handleSaveKnowledge_def Let_def newItem_def)
  next
    case (Some c)
    show ?thesis
    proof (cases "indexWriteOk env")
      case False
      then show ?thesis using inv1 w Some
        by (simp add: handleSaveKnowledge_def Let_def newItem_def saveIndex_def)
    next
      case ok: True
      define entry where "entry = (newItem env input)\<lparr>content := Some (take 200 c)\<rparr>"
      define ix' where
        "ix' = (loadIndex (now env) st1)
                 \<lparr>items := AList.update (uuid env) entry (items (loadIndex (now env) st1)),
                  lastUpdated := now env\<rparr>"
      have res: "snd (handleSaveKnowledge env input st) = st1\<lparr>index := Some ix'\<rparr>"
        using w Some ok
        by (simp add: handleSaveKnowledge_def Let_def saveIndex_def entry_def ix'_def newItem_def)
      have new: "entryConsistent st1 (uuid env, entry)"
        using Some
        by (simp add: entryConsistent_def st1_def entry_def newItem_def contentPrefixOk_take)
      have "entryConsistent st1 e" if "e \<in> set (items ix')" for e
      proof -
        from that have "e = (uuid env, entry) \<or> e \<in> set (items (loadIndex (now env) st1))"
          using set_update_subset[of "uuid env" entry "items (loadIndex (now env) st1)"]
          by (auto simp: ix'_def)
        then show ?thesis
        proof
          assume "e = (uuid env, entry)"
          then show ?thesis using new by simp
        next
          assume "e \<in> set (items (loadIndex (now env) st1))"
          then show ?thesis by (rule loadIndex_entries[OF inv1])
        qed
      qed
      then show ?thesis
        unfolding res
        by (simp add: indexConsistent_def list_all_iff entryConsistent_index_irrelevant)
    qed
  qed
qed

lemma handleSaveKnowledge_files:
  "dom (files (snd (handleSaveKnowledge env input st))) \<subseteq> insert (uuid env) (dom (files st))"
  by (auto simp: handleSaveKnowledge_def Let_def saveKnowledgeFile_def saveIndex_def newItem_def
           split: option.splits if_splits)

lemma step_preserves:
  "indexConsistent st \<Longrightarrow> set (callIds [c]) \<inter> dom (files st) = {} \<Longrightarrow>
     indexConsistent (step c st)"
  by (cases c) (auto simp: handleSaveKnowledge_preserves)

lemma step_files: "dom (files (step c st)) \<subseteq> set (callIds [c]) \<union> dom (files st)"
  using handleSaveKnowledge_files by (cases c) auto

lemma callIds_Cons: "callIds (c # cs) = callIds [c] @ callIds cs"
  by (cases c) auto

lemma fold_step_preserves:
  "indexConsistent st \<Longrightarrow> distinct (callIds calls) \<Longrightarrow>
   set (callIds calls) \<inter> dom (files st) = {} \<Longrightarrow> indexConsistent (fold step calls st)"
proof (induction calls arbitrary: st)
  case Nil
  then show ?case by simp
next
  case (Cons c calls)
  have ids: "callIds (c # calls) = callIds [c] @ callIds calls" by (rule callIds_Cons)
  have a: "indexConsistent (step c st)"
    using Cons.prems ids by (intro step_preserves) auto
  have b: "distinct (callIds calls)" using Cons.prems ids by simp
  have d: "set (callIds calls) \<inter> set (callIds [c]) = {}"
    and e: "set (callIds calls) \<inter> dom (files st) = {}"
    using Cons.prems ids by auto
  have c: "set (callIds calls) \<inter> dom (files (step c st)) = {}"
    using d e step_files[of c st] by blast
  show ?case using Cons.IH[OF a b c] by simp
qed

text \<open>
  \<^bold>\<open>C4.\<close> The index stays consistent with the records under every run of the store whose
  saves draw ids that are new (as random UUIDs are): after the run, every id in the index
  has a full record, and the content of its index entry is a prefix of the record's content,
  equal to it when that has at most 200 characters and its first 200 characters otherwise.
  The empty store is consistent, a search writes nothing, and a save that throws after
  writing its record leaves the index as it was.
\<close>

theorem index_content_is_prefix:
  assumes "indexConsistent st" and "distinct (callIds calls)"
    and "set (callIds calls) \<inter> dom (files st) = {}"
  shows "indexConsistent (run calls st)
         \<and> (\<forall>ix i e. index (run calls st) = Some ix \<and> (i, e) \<in> set (items ix) \<longrightarrow>
               (\<exists>fullItem c p. files (run calls st) i = Some fullItem
                  \<and> content fullItem = Some c \<and> content e = Some p \<and> prefix p c
                  \<and> (length c \<le> 200 \<longrightarrow> p = c) \<and> (200 < length c \<longrightarrow> p = take 200 c)))"
proof -
  have "indexConsistent (run calls st)"
    unfolding run_def using assms by (rule fold_step_preserves)
  then show ?thesis using indexConsistent_entry by blast
qed

theorem index_content_is_prefix_witness:
  "indexConsistent emptyStore
   \<and> distinct (callIds calls2)
   \<and> set (callIds calls2) \<inter> dom (files emptyStore) = {}
   \<and> run calls2 emptyStore = store2
   \<and> indexConsistent store2"
proof -
  have d: "distinct (callIds calls2)" by (simp add: calls2_def env1_def env2_def)
  have f: "set (callIds calls2) \<inter> dom (files emptyStore) = {}" by (simp add: emptyStore_def)
  from index_content_is_prefix[OF indexConsistent_empty d f] d f
  show ?thesis by (simp add: run_calls2 indexConsistent_empty)
qed

subsection \<open>Saving\<close>

text \<open>
  \<^bold>\<open>C2.\<close> A save whose title or content is absent is to fail with a validation error
  before any side effect. The handler does not check its arguments. With the title absent
  it succeeds: the record and the index entry are written without a title, and every later
  search that reaches the record throws a TypeError. With the content absent it throws a
  TypeError, after the record has been written.
\<close>

theorem save_without_title_or_content:
  "fst (handleSaveKnowledge env1 inputNoTitle emptyStore) = Inr ''id-1''
   \<and> files (snd (handleSaveKnowledge env1 inputNoTitle emptyStore)) ''id-1''
       = Some (newItem env1 inputNoTitle)
   \<and> title (newItem env1 inputNoTitle) = None
   \<and> index (snd (handleSaveKnowledge env1 inputNoTitle emptyStore))
       = Some \<lparr>items = [(''id-1'', newItem env1 inputNoTitle)], lastUpdated = ''t0''\<rparr>
   \<and> handleSearchKnowledge ''t1'' (searchFor ''camelcase'')
         (snd (handleSaveKnowledge env1 inputNoTitle emptyStore)) = Inl TypeError
   \<and> fst (handleSaveKnowledge env1 inputNoContent emptyStore) = Inl TypeError
   \<and> files (snd (handleSaveKnowledge env1 inputNoContent emptyStore)) ''id-1''
       = Some (newItem env1 inputNoContent)
   \<and> index (snd (handleSaveKnowledge env1 inputNoContent emptyStore)) = None"
proof -
  have a: "handleSaveKnowledge env1 inputNoTitle emptyStore =
          (Inr (uuid env1),
           \<lparr>files = (files emptyStore)(uuid env1 \<mapsto> newItem env1 inputNoTitle),
            index = Some \<lparr>items = AList.update (uuid env1)
                             ((newItem env1 inputNoTitle)\<lparr>content := Some (take 200 ''camelCase'')\<rparr>)
                             (items (loadIndex (now env1) emptyStore)),
                          lastUpdated = now env1\<rparr>\<rparr>)"
    by (rule handleSaveKnowledge_ok) (simp_all add: env1_def inputNoTitle_def)
  have b: "handleSaveKnowledge env1 inputNoContent emptyStore
             = (Inl TypeError,
                \<lparr>files = [''id-1'' \<mapsto> newItem env1 inputNoContent], index = None\<rparr>)"
    by (simp add: handleSaveKnowledge_def Let_def saveKnowledgeFile_def emptyStore_def)
       (simp add: newItem_def env1_def inputNoContent_def)
  have c: "(newItem env1 inputNoTitle)\<lparr>content := Some (take 200 ''camelCase'')\<rparr>
             = newItem env1 inputNoTitle"
    by (simp add: newItem_def inputNoTitle_def)
  have d: "title (newItem env1 inputNoTitle) = None"
    by (simp add: newItem_def inputNoTitle_def)
  have e: "handleSearchKnowledge ''t1'' (searchFor ''camelcase'')
             (snd (handleSaveKnowledge env1 inputNoTitle emptyStore)) = Inl TypeError"
    unfolding a c
    by (simp add: handleSearchKnowledge_def Let_def searchFor_def loadIndex_def emptyStore_def
          loadKnowledgeFile_def filterByScope_def filterByTags_def
          calculateRelevanceScore_def d)
  show ?thesis
    unfolding e unfolding a b c
    by (simp add: d emptyStore_def loadIndex_def) (simp add: env1_def)
qed

text \<open>
  \<^bold>\<open>C3\<close> (amended). Every item created by a save has the scope argument as its scope,
  \<open>global\<close> when that is absent, and the \<open>projectPath\<close> argument as its \<open>projectPath\<close>:
  present exactly when the caller supplied one, whatever the scope, and empty when the
  caller supplied the empty string. This is the record that the save writes.
\<close>

theorem created_item_copies_scope_and_path:
  assumes "recordWriteOk env"
  shows "files (snd (handleSaveKnowledge env input st)) (uuid env) = Some (newItem env input)
         \<and> scope (newItem env input) = (case in_scope input of None \<Rightarrow> Global | Some s \<Rightarrow> s)
         \<and> projectPath (newItem env input) = in_projectPath input"
  using assms
  by (simp add: handleSaveKnowledge_def Let_def saveKnowledgeFile_def saveIndex_def
        split: option.splits) (simp add: newItem_def)

theorem created_item_copies_scope_and_path_witness:
  "recordWriteOk env2
   \<and> files (snd (handleSaveKnowledge env2 input2 store1)) ''id-2'' = Some item2
   \<and> scope item2 = Project \<and> projectPath item2 = Some ''/a''"
proof -
  have r: "recordWriteOk env2" by (simp add: env2_def)
  have u: "uuid env2 = ''id-2''" by (simp add: env2_def)
  from created_item_copies_scope_and_path[OF r, of input2 store1] r
  show ?thesis unfolding newItem2 u by (simp add: input2_def)
qed

text \<open>The claim as stated fails both ways: a save with no scope and a path creates a global
  item that has a \<open>projectPath\<close>, and a save with scope \<open>project\<close> and no path creates a
  project item that has none.\<close>

theorem projectPath_iff_project_counterexample:
  "fst (handleSaveKnowledge env1 inputGlobalWithPath emptyStore) = Inr ''id-1''
   \<and> files (snd (handleSaveKnowledge env1 inputGlobalWithPath emptyStore)) ''id-1''
       = Some (newItem env1 inputGlobalWithPath)
   \<and> scope (newItem env1 inputGlobalWithPath) = Global
   \<and> projectPath (newItem env1 inputGlobalWithPath) = Some ''/a''
   \<and> fst (handleSaveKnowledge env1 inputProjectNoPath emptyStore) = Inr ''id-1''
   \<and> files (snd (handleSaveKnowledge env1 inputProjectNoPath emptyStore)) ''id-1''
       = Some (newItem env1 inputProjectNoPath)
   \<and> scope (newItem env1 inputProjectNoPath) = Project
   \<and> projectPath (newItem env1 inputProjectNoPath) = None"
proof -
  have a: "handleSaveKnowledge env1 inputGlobalWithPath emptyStore =
          (Inr (uuid env1),
           \<lparr>files = (files emptyStore)(uuid env1 \<mapsto> newItem env1 inputGlobalWithPath),
            index = Some \<lparr>items = AList.update (uuid env1)
                             ((newItem env1 inputGlobalWithPath)
                                \<lparr>content := Some (take 200 ''camelCase'')\<rparr>)
                             (items (loadIndex (now env1) emptyStore)),
                          lastUpdated = now env1\<rparr>\<rparr>)"
    by (rule handleSaveKnowledge_ok) (simp_all add: env1_def inputGlobalWithPath_def)
  have b: "handleSaveKnowledge env1 inputProjectNoPath emptyStore =
          (Inr (uuid env1),
           \<lparr>files = (files emptyStore)(uuid env1 \<mapsto> newItem env1 inputProjectNoPath),
            index = Some \<lparr>items = AList.update (uuid env1)
                             ((newItem env1 inputProjectNoPath)
                                \<lparr>content := Some (take 200 ''camelCase'')\<rparr>)
                             (items (loadIndex (now env1) emptyStore)),
                          lastUpdated = now env1\<rparr>\<rparr>)"
    by (rule handleSaveKnowledge_ok) (simp_all add: env1_def inputProjectNoPath_def)
  have u: "uuid env1 = ''id-1''" by (simp add: env1_def)
  show ?thesis
    unfolding a b u
    by (simp add: newItem_def inputGlobalWithPath_def inputProjectNoPath_def)
qed

subsection \<open>Searching\<close>

text \<open>Every result that the loop returns was pushed after both filters and with its score,
  which is positive.\<close>

lemma collectResults_matched:
  "collectResults st sc tgs qts entries acc = Inr rs \<Longrightarrow> \<forall>r\<in>set acc. matched sc tgs qts r
     \<Longrightarrow> \<forall>r\<in>set rs. matched sc tgs qts r"
proof (induction entries arbitrary: acc)
  case Nil
  then show ?case by simp
next
  case (Cons entry entries)
  obtain i indexedItem where e: "entry = (i, indexedItem)" by (cases entry)
  show ?case
  proof (cases "loadKnowledgeFile st i")
    case None
    with Cons e show ?thesis by simp
  next
    case (Some fullItem)
    show ?thesis
    proof (cases "filterByScope fullItem sc None \<and> filterByTags fullItem tgs")
      case False
      then have "collectResults st sc tgs qts entries acc = Inr rs"
        using Cons.prems(1) e Some by (auto split: if_splits)
      then show ?thesis using Cons.prems(2) by (rule Cons.IH)
    next
      case True
      show ?thesis
      proof (cases "calculateRelevanceScore fullItem qts")
        case (Inl err)
        with Cons.prems e Some True show ?thesis by simp
      next
        case (Inr score)
        show ?thesis
        proof (cases "0 < score")
          case False
          with Cons e Some True Inr show ?thesis by simp
        next
          case pos: True
          let ?acc = "acc @ [\<lparr>res_item = fullItem, res_score = score\<rparr>]"
          have a: "collectResults st sc tgs qts entries ?acc = Inr rs"
            using Cons.prems(1) e Some True Inr pos by simp
          have b: "\<forall>r\<in>set ?acc. matched sc tgs qts r"
            using Cons.prems(2) True Inr pos by (simp add: matched_def)
          show ?thesis by (rule Cons.IH[OF a b])
        qed
      qed
    qed
  qed
qed

text \<open>The loop returns when every record it reads has a title and a content.\<close>

lemma collectResults_total:
  "recordsWellTyped st entries \<Longrightarrow> \<exists>rs. collectResults st sc tgs qts entries acc = Inr rs"
proof (induction entries arbitrary: acc)
  case Nil
  then show ?case by simp
next
  case (Cons entry entries)
  obtain i indexedItem where e: "entry = (i, indexedItem)" by (cases entry)
  have rest: "recordsWellTyped st entries" using Cons.prems by (simp add: recordsWellTyped_def)
  show ?case
  proof (cases "loadKnowledgeFile st i")
    case None
    with Cons.IH[OF rest] e show ?thesis by simp
  next
    case (Some fullItem)
    then have "title fullItem \<noteq> None" "content fullItem \<noteq> None"
      using Cons.prems e by (auto simp: recordsWellTyped_def loadKnowledgeFile_def)
    then obtain s where "calculateRelevanceScore fullItem qts = Inr s"
      by (auto simp: calculateRelevanceScore_def)
    with Cons.IH[OF rest] e Some show ?thesis by simp
  qed
qed

lemma collectResults_no_query:
  "recordsWellTyped st entries \<Longrightarrow> collectResults st sc tgs [] entries acc = Inr acc"
proof (induction entries arbitrary: acc)
  case Nil
  then show ?case by simp
next
  case (Cons entry entries)
  obtain i indexedItem where e: "entry = (i, indexedItem)" by (cases entry)
  have rest: "recordsWellTyped st entries" using Cons.prems by (simp add: recordsWellTyped_def)
  show ?case
  proof (cases "loadKnowledgeFile st i")
    case None
    with Cons.IH[OF rest] e show ?thesis by simp
  next
    case (Some fullItem)
    then have "title fullItem \<noteq> None" "content fullItem \<noteq> None"
      using Cons.prems e by (auto simp: recordsWellTyped_def loadKnowledgeFile_def)
    then have "calculateRelevanceScore fullItem [] = Inr 0"
      by (auto simp: calculateRelevanceScore_def)
    with Cons.IH[OF rest] e Some show ?thesis by simp
  qed
qed

lemma set_slice_subset: "set (slice xs a b) \<subseteq> set xs"
  unfolding slice_def Let_def
  by (meson set_take_subset set_drop_subset subset_trans)

lemma set_sortResults: "set (sortResults rs) = set rs"
  by (simp add: sortResults_def)

lemma length_sortResults: "length (sortResults rs) = length rs"
  by (simp add: sortResults_def)

lemma handleSearchKnowledge_matched:
  assumes "handleSearchKnowledge ts input st = Inr rs"
  shows "\<forall>r\<in>set rs. matched (searchScope input) (q_tags input) (tokenize (query input)) r"
proof -
  from assms obtain results where
    c: "collectResults st (searchScope input) (q_tags input) (tokenize (query input))
          (items (loadIndex ts st)) [] = Inr results"
    and rs: "rs = slice (sortResults results) (Finite 0)
                    (case q_limit input of None \<Rightarrow> Finite 10 | Some l \<Rightarrow> l)"
    by (auto simp: handleSearchKnowledge_def Let_def searchScope_def split: sum.splits)
  have "\<forall>r\<in>set results. matched (searchScope input) (q_tags input) (tokenize (query input)) r"
    by (rule collectResults_matched[OF c]) simp
  moreover have "set rs \<subseteq> set results"
    unfolding rs using set_slice_subset[of "sortResults results"] by (simp add: set_sortResults)
  ultimately show ?thesis by blast
qed

lemma sum_pairPoints_zero:
  "list_all (\<lambda>t. \<not> (t = q \<or> includes_str t q)) toks \<Longrightarrow>
     (\<Sum>t\<leftarrow>toks. pairPoints e p t q) = 0"
  by (induction toks) (simp_all add: pairPoints_def)

lemma specScore_zero:
  "noPairMatches ti qs \<Longrightarrow> noPairMatches tg qs \<Longrightarrow> noPairMatches co qs \<Longrightarrow>
     specScore ti tg co qs = 0"
  unfolding specScore_def noPairMatches_def
  by (induction qs) (simp_all add: sum_pairPoints_zero)

text \<open>
  \<^bold>\<open>C5\<close> (amended). The scope filter accepts every item for \<open>all\<close>, the items of scope
  \<open>global\<close> for \<open>global\<close>, the items of scope \<open>project\<close> for \<open>project\<close> with no path or with
  the empty string as path, and for \<open>project\<close> with a path that is not empty the items of
  scope \<open>project\<close> whose \<open>projectPath\<close> is that very string. A search with scope \<open>global\<close>
  returns no project item and a search with scope \<open>project\<close> returns no global item.
\<close>

theorem scope_filter_cases:
  "filterByScope it ScopeAll path
   \<and> filterByScope it ScopeGlobal path = (scope it = Global)
   \<and> filterByScope it ScopeProject None = (scope it = Project)
   \<and> filterByScope it ScopeProject (Some []) = (scope it = Project)
   \<and> (p \<noteq> [] \<longrightarrow>
        filterByScope it ScopeProject (Some p) = (scope it = Project \<and> projectPath it = Some p))
   \<and> (\<forall>rs. handleSearchKnowledge ts input st = Inr rs \<longrightarrow>
          (q_scope input = Some ScopeGlobal \<longrightarrow> (\<forall>r\<in>set rs. scope (res_item r) = Global))
        \<and> (q_scope input = Some ScopeProject \<longrightarrow> (\<forall>r\<in>set rs. scope (res_item r) = Project)))"
proof -
  have f: "filterByScope it ScopeAll path
     \<and> filterByScope it ScopeGlobal path = (scope it = Global)
     \<and> filterByScope it ScopeProject None = (scope it = Project)
     \<and> filterByScope it ScopeProject (Some []) = (scope it = Project)
     \<and> (p \<noteq> [] \<longrightarrow>
        filterByScope it ScopeProject (Some p) = (scope it = Project \<and> projectPath it = Some p))"
    by (simp add: filterByScope_def)
  have s: "(q_scope input = Some ScopeGlobal \<longrightarrow> (\<forall>r\<in>set rs. scope (res_item r) = Global))
        \<and> (q_scope input = Some ScopeProject \<longrightarrow> (\<forall>r\<in>set rs. scope (res_item r) = Project))"
    if "handleSearchKnowledge ts input st = Inr rs" for rs
    using handleSearchKnowledge_matched[OF that]
    by (auto simp: matched_def searchScope_def filterByScope_def)
  from f s show ?thesis by blast
qed

theorem scope_filter_cases_witness:
  "''/a'' \<noteq> []
   \<and> filterByScope item2 ScopeProject (Some ''/a'')
   \<and> \<not> filterByScope item2 ScopeProject (Some ''/b'')
   \<and> handleSearchKnowledge ''t2'' (searchNaming (Some ScopeGlobal) None) store2
       = Inr [\<lparr>res_item = item1, res_score = 10\<rparr>]
   \<and> scope item1 = Global
   \<and> handleSearchKnowledge ''t2'' (searchNaming (Some ScopeProject) None) store2
       = Inr [\<lparr>res_item = item2, res_score = 10\<rparr>]
   \<and> scope item2 = Project"
proof -
  have g: "q_scope (searchNaming (Some ScopeGlobal) None) = Some ScopeGlobal"
    and p: "q_scope (searchNaming (Some ScopeProject) None) = Some ScopeProject"
    by (simp_all add: searchNaming_def)
  from scope_filter_cases[of item2 None "''/a''" "''t2''" "searchNaming (Some ScopeGlobal) None" store2]
    scope_filter_cases[of item2 None "''/b''" "''t2''" "searchNaming (Some ScopeProject) None" store2]
  show ?thesis
    by (simp add: g p search_naming_global search_naming_project item2_scope item2_path)
qed

text \<open>The claim as stated fails for the empty string as the caller's path: the filter then
  accepts a project item whose \<open>projectPath\<close> is another string.\<close>

theorem scope_filter_empty_path_counterexample:
  "filterByScope item2 ScopeProject (Some '''')
   \<and> scope item2 = Project
   \<and> projectPath item2 = Some ''/a''
   \<and> projectPath item2 \<noteq> Some ''''"
  by (simp add: filterByScope_def item2_def)

text \<open>
  \<^bold>\<open>C6.\<close> The tag filter accepts an item if and only if the requested list is absent or
  empty, or some tag of the item equals some requested tag once both are lower-cased: any
  requested tag will do, not all of them. An item tagged \<open>a\<close>, \<open>b\<close> passes the filter
  \<open>b\<close>, \<open>z\<close> and not the filter \<open>z\<close>, \<open>y\<close>.
\<close>

theorem tag_filter_is_any_match:
  "filterByTags it tgs =
     (tgs = None \<or> tgs = Some []
      \<or> (\<exists>ts. tgs = Some ts
             \<and> (\<exists>t\<in>set (tags it). \<exists>r\<in>set ts. toLowerCase t = toLowerCase r)))
   \<and> (tags it = [''a'', ''b''] \<longrightarrow>
        filterByTags it (Some [''b'', ''z'']) \<and> \<not> filterByTags it (Some [''z'', ''y'']))"
proof -
  have a: "filterByTags it tgs =
     (tgs = None \<or> tgs = Some []
      \<or> (\<exists>ts. tgs = Some ts
             \<and> (\<exists>t\<in>set (tags it). \<exists>r\<in>set ts. toLowerCase t = toLowerCase r)))"
  proof (cases tgs)
    case None
    then show ?thesis by (simp add: filterByTags_def)
  next
    case (Some ts)
    have "list_ex (\<lambda>tag. toLowerCase tag \<in> set (map toLowerCase (tags it))) ts
            = (\<exists>tag\<in>set ts. \<exists>x\<in>set (tags it). toLowerCase tag = toLowerCase x)"
      by (simp add: list_ex_iff image_iff)
    also have "\<dots> = (\<exists>t\<in>set (tags it). \<exists>r\<in>set ts. toLowerCase t = toLowerCase r)"
      by metis
    finally show ?thesis using Some by (auto simp: filterByTags_def Let_def)
  qed
  have b: "filterByTags it (Some [''b'', ''z'']) \<and> \<not> filterByTags it (Some [''z'', ''y''])"
    if "tags it = [''a'', ''b'']"
  proof -
    have l: "toLowerCase ''a'' = ''a''" "toLowerCase ''b'' = ''b''" "toLowerCase ''z'' = ''z''"
      "toLowerCase ''y'' = ''y''" by code_simp+
    show ?thesis using that by (simp add: filterByTags_def l)
  qed
  from a b show ?thesis by blast
qed

theorem tag_filter_is_any_match_witness:
  "tags itemAB = [''a'', ''b'']
   \<and> filterByTags itemAB (Some [''b'', ''z''])
   \<and> \<not> filterByTags itemAB (Some [''z'', ''y''])
   \<and> filterByTags item1 (Some [''STYLE'', ''other''])
   \<and> filterByTags item1 None"
proof -
  have t: "tags itemAB = [''a'', ''b'']" by (simp add: itemAB_def)
  have l: "toLowerCase ''Style'' = toLowerCase ''STYLE''" by code_simp
  have m: "\<exists>t\<in>set (tags item1). \<exists>r\<in>set [''STYLE'', ''other'']. toLowerCase t = toLowerCase r"
    using l by (simp add: item1_def)
  from tag_filter_is_any_match[of itemAB None]
    tag_filter_is_any_match[of item1 "Some [''STYLE'', ''other'']"]
    tag_filter_is_any_match[of item1 None] t m
  show ?thesis by blast
qed

text \<open>
  \<^bold>\<open>C7.\<close> An item for which no pair of a query token and a token of its title, its tags or
  its content matches, exactly or by containment, scores exactly 0 and is in no result of
  the search, whatever the limit and the scope. A query that tokenizes to nothing finds
  nothing.
\<close>

theorem zero_score_items_are_excluded:
  "(title it = Some ti \<and> content it = Some co
      \<and> noPairMatches (tokenize ti) (tokenize (query input))
      \<and> noPairMatches (map toLowerCase (tags it)) (tokenize (query input))
      \<and> noPairMatches (tokenize co) (tokenize (query input))
    \<longrightarrow> calculateRelevanceScore it (tokenize (query input)) = Inr 0
        \<and> (\<forall>rs. handleSearchKnowledge ts input st = Inr rs \<longrightarrow> it \<notin> res_item ` set rs))
   \<and> (tokenize (query input) = [] \<and> recordsWellTyped st (items (loadIndex ts st))
    \<longrightarrow> handleSearchKnowledge ts input st = Inr [])"
proof -
  have first: "calculateRelevanceScore it (tokenize (query input)) = Inr 0
        \<and> (\<forall>rs. handleSearchKnowledge ts input st = Inr rs \<longrightarrow> it \<notin> res_item ` set rs)"
    if h: "title it = Some ti" "content it = Some co"
      "noPairMatches (tokenize ti) (tokenize (query input))"
      "noPairMatches (map toLowerCase (tags it)) (tokenize (query input))"
      "noPairMatches (tokenize co) (tokenize (query input))"
  proof -
    have z: "calculateRelevanceScore it (tokenize (query input)) = Inr 0"
      using h by (simp add: calculateRelevanceScore_eq specScore_zero)
    have "it \<notin> res_item ` set rs" if s: "handleSearchKnowledge ts input st = Inr rs" for rs
    proof
      assume "it \<in> res_item ` set rs"
      then obtain r where r: "r \<in> set rs" "res_item r = it" by auto
      with handleSearchKnowledge_matched[OF s] z show False by (auto simp: matched_def)
    qed
    with z show ?thesis by blast
  qed
  have second: "handleSearchKnowledge ts input st = Inr []"
    if "tokenize (query input) = []" "recordsWellTyped st (items (loadIndex ts st))"
    using that
    by (simp add: handleSearchKnowledge_def Let_def collectResults_no_query slice_def
          sortResults_def)
  from first second show ?thesis by blast
qed

theorem zero_score_items_are_excluded_witness:
  "noPairMatches (tokenize ''Naming Conventions'') (tokenize (query (searchFor ''kebab'')))
   \<and> noPairMatches (map toLowerCase (tags item1)) (tokenize (query (searchFor ''kebab'')))
   \<and> noPairMatches (tokenize ''Use camelCase for variables'')
        (tokenize (query (searchFor ''kebab'')))
   \<and> calculateRelevanceScore item1 (tokenize (query (searchFor ''kebab''))) = Inr 0
   \<and> handleSearchKnowledge ''t2'' (searchFor ''kebab'') store2
       = Inr [\<lparr>res_item = item2, res_score = 2\<rparr>]
   \<and> item1 \<notin> res_item ` set [\<lparr>res_item = item2, res_score = 2\<rparr>]
   \<and> tokenize (query (searchFor ''?!'')) = []
   \<and> recordsWellTyped store2 (items (loadIndex ''t2'' store2))
   \<and> handleSearchKnowledge ''t2'' (searchFor ''?!'') store2 = Inr []"
proof -
  have q: "query (searchFor ''kebab'') = ''kebab''" "query (searchFor ''?!'') = ''?!''"
    by (simp_all add: searchFor_def)
  have n1: "noPairMatches (tokenize ''Naming Conventions'') (tokenize ''kebab'')"
    and n2: "noPairMatches (map toLowerCase [''Style'']) (tokenize ''kebab'')"
    and n3: "noPairMatches (tokenize ''Use camelCase for variables'') (tokenize ''kebab'')"
    and e: "tokenize ''?!'' = []"
    by code_simp+
  have w: "recordsWellTyped store2 (items (loadIndex ''t2'' store2))"
    by (simp add: recordsWellTyped_def store2_index) (simp add: store2_def item1_def item2_def)
  from zero_score_items_are_excluded[of item1 "''Naming Conventions''"
         "''Use camelCase for variables''" "searchFor ''kebab''" "''t2''" store2]
    zero_score_items_are_excluded[of item1 "''Naming Conventions''"
         "''Use camelCase for variables''" "searchFor ''?!''" "''t2''" store2]
    n1 n2 n3 e w
  show ?thesis
    by (simp add: q item1_title item1_content item1_tags search_kebab)
qed

text \<open>The matches of the sample store for the query \<open>naming files\<close>, as the loop collects
  them: the second scores higher than the first.\<close>

lemma score_naming_files:
  "calculateRelevanceScore item1 (tokenize ''naming files'') = Inr 10"
  "calculateRelevanceScore item2 (tokenize ''naming files'') = Inr 20"
  unfolding item1_def item2_def by code_simp+

lemma collect_naming_files:
  "collectResults store2 (searchScope (searchFiles l)) (q_tags (searchFiles l))
     (tokenize (query (searchFiles l))) (items (loadIndex ts store2)) []
   = Inr [\<lparr>res_item = item1, res_score = 10\<rparr>, \<lparr>res_item = item2, res_score = 20\<rparr>]"
  by (simp add: searchFiles_def searchScope_def store2_index store2_files filterByScope_def
        filterByTags_def score_naming_files)

lemma sort_naming_files:
  "sortResults [\<lparr>res_item = item1, res_score = 10\<rparr>, \<lparr>res_item = item2, res_score = 20\<rparr>]
   = [\<lparr>res_item = item2, res_score = 20\<rparr>, \<lparr>res_item = item1, res_score = 10\<rparr>]"
  by (simp add: sortResults_def)

lemma store2_wellTyped: "recordsWellTyped store2 (items (loadIndex ts store2))"
  by (simp add: recordsWellTyped_def store2_index) (simp add: store2_def item1_def item2_def)

text \<open>The ranked order: highest score first, and matches of equal score in the order in
  which the loop found them.\<close>

lemma sortResults_descending:
  "sorted_wrt (\<lambda>a b. res_score b \<le> res_score a) (sortResults results)"
proof -
  have "sorted (map (\<lambda>r. - res_score r) (sortResults results))"
    unfolding sortResults_def by (rule sorted_sort_key)
  then show ?thesis by (simp add: sorted_wrt_map)
qed

lemma sortResults_stable:
  "filter (\<lambda>r. res_score r = k) (sortResults results) = filter (\<lambda>r. res_score r = k) results"
proof -
  have "filter (\<lambda>r. - res_score r = - k) (sort_key (\<lambda>r. - res_score r) results)
          = filter (\<lambda>r. - res_score r = - k) results"
    by (rule sort_key_stable)
  then show ?thesis by (simp add: sortResults_def)
qed

text \<open>
  \<^bold>\<open>C10\<close> (amended). A search with a negative limit does not fail on account of it. Its
  matches are ranked by score, highest first, matches of equal score in the order of the
  index. With a limit of -1 or below it returns the ranked matches without the last \<open>k\<close> of
  them, where \<open>k\<close> is the magnitude of the limit with its fraction dropped: the first
  \<open>max (n - k) 0\<close> of the \<open>n\<close> matches, which is not the empty list when \<open>n > k\<close>. With a
  negative limit above -1, and with minus infinity, it returns the empty list. The loop
  that collects the matches returns whenever the records it reads have a title and a
  content.
\<close>

theorem negative_limit_drops_truncated:
  "(collectResults st (searchScope input) (q_tags input) (tokenize (query input))
      (items (loadIndex ts st)) [] = Inr results \<longrightarrow>
        sorted_wrt (\<lambda>a b. res_score b \<le> res_score a) (sortResults results)
      \<and> (\<forall>k. filter (\<lambda>r. res_score r = k) (sortResults results)
               = filter (\<lambda>r. res_score r = k) results)
      \<and> (q_limit input = Some (Finite q) \<and> q \<le> - 1 \<longrightarrow>
            handleSearchKnowledge ts input st
              = Inr (take (nat (max (int (length results) - \<lfloor>\<bar>q\<bar>\<rfloor>) 0)) (sortResults results))
          \<and> (\<lfloor>\<bar>q\<bar>\<rfloor> < int (length results) \<longrightarrow> handleSearchKnowledge ts input st \<noteq> Inr []))
      \<and> (q_limit input = Some (Finite q) \<and> - 1 < q \<and> q < 0 \<longrightarrow>
            handleSearchKnowledge ts input st = Inr [])
      \<and> (q_limit input = Some NegInfinity \<longrightarrow> handleSearchKnowledge ts input st = Inr []))
   \<and> (recordsWellTyped st (items (loadIndex ts st)) \<longrightarrow>
        (\<exists>found. collectResults st (searchScope input) (q_tags input) (tokenize (query input))
                   (items (loadIndex ts st)) [] = Inr found))"
proof -
  have main: "(q_limit input = Some (Finite q) \<and> q \<le> - 1 \<longrightarrow>
            handleSearchKnowledge ts input st
              = Inr (take (nat (max (int (length results) - \<lfloor>\<bar>q\<bar>\<rfloor>) 0)) (sortResults results))
          \<and> (\<lfloor>\<bar>q\<bar>\<rfloor> < int (length results) \<longrightarrow> handleSearchKnowledge ts input st \<noteq> Inr []))
      \<and> (q_limit input = Some (Finite q) \<and> - 1 < q \<and> q < 0 \<longrightarrow>
            handleSearchKnowledge ts input st = Inr [])
      \<and> (q_limit input = Some NegInfinity \<longrightarrow> handleSearchKnowledge ts input st = Inr [])"
    if c: "collectResults st (searchScope input) (q_tags input) (tokenize (query input))
             (items (loadIndex ts st)) [] = Inr results"
  proof -
    have s: "handleSearchKnowledge ts input st = Inr (slice (sortResults results) (Finite 0) l)"
      if "q_limit input = Some l" for l
      using c that by (simp add: handleSearchKnowledge_def Let_def searchScope_def)
    have low: "handleSearchKnowledge ts input st
              = Inr (take (nat (max (int (length results) - \<lfloor>\<bar>q\<bar>\<rfloor>) 0)) (sortResults results))
          \<and> (\<lfloor>\<bar>q\<bar>\<rfloor> < int (length results) \<longrightarrow> handleSearchKnowledge ts input st \<noteq> Inr [])"
      if l: "q_limit input = Some (Finite q)" and q: "q \<le> - 1"
    proof -
      have h: "handleSearchKnowledge ts input st
              = Inr (take (nat (max (int (length results) - \<lfloor>\<bar>q\<bar>\<rfloor>) 0)) (sortResults results))"
        using s[OF l] slice_negative[OF q, of "sortResults results"]
        by (simp add: length_sortResults)
      have "take (nat (max (int (length results) - \<lfloor>\<bar>q\<bar>\<rfloor>) 0)) (sortResults results) \<noteq> []"
        if "\<lfloor>\<bar>q\<bar>\<rfloor> < int (length results)"
        using that length_sortResults[of results] by (cases "sortResults results") auto
      with h show ?thesis by simp
    qed
    have frac: "handleSearchKnowledge ts input st = Inr []"
      if l: "q_limit input = Some (Finite q)" and q: "- 1 < q" "q < 0"
      using s[OF l] slice_negative_fraction[OF q] by simp
    have inf: "handleSearchKnowledge ts input st = Inr []"
      if l: "q_limit input = Some NegInfinity"
      using s[OF l] slice_negative_infinity by simp
    from low frac inf show ?thesis by blast
  qed
  have total: "\<exists>found. collectResults st (searchScope input) (q_tags input)
                 (tokenize (query input)) (items (loadIndex ts st)) [] = Inr found"
    if "recordsWellTyped st (items (loadIndex ts st))"
    using that by (rule collectResults_total)
  from main total sortResults_descending[of results] sortResults_stable[of _ results]
  show ?thesis by blast
qed

theorem negative_limit_drops_truncated_witness:
  "recordsWellTyped store2 (items (loadIndex ''t2'' store2))
   \<and> collectResults store2 (searchScope (searchFiles (Some (Finite (- (3 / 2))))))
        (q_tags (searchFiles (Some (Finite (- (3 / 2))))))
        (tokenize (query (searchFiles (Some (Finite (- (3 / 2)))))))
        (items (loadIndex ''t2'' store2)) []
       = Inr [\<lparr>res_item = item1, res_score = 10\<rparr>, \<lparr>res_item = item2, res_score = 20\<rparr>]
   \<and> q_limit (searchFiles (Some (Finite (- (3 / 2))))) = Some (Finite (- (3 / 2)))
   \<and> (- (3 / 2) :: rat) \<le> - 1
   \<and> \<lfloor>\<bar>- (3 / 2) :: rat\<bar>\<rfloor> = 1
   \<and> handleSearchKnowledge ''t2'' (searchFiles (Some (Finite (- (3 / 2))))) store2
       = Inr [\<lparr>res_item = item2, res_score = 20\<rparr>]
   \<and> q_limit (searchFiles (Some (Finite (- (1 / 4))))) = Some (Finite (- (1 / 4)))
   \<and> - 1 < (- (1 / 4) :: rat)
   \<and> (- (1 / 4) :: rat) < 0
   \<and> handleSearchKnowledge ''t2'' (searchFiles (Some (Finite (- (1 / 4))))) store2 = Inr []
   \<and> q_limit (searchFiles (Some NegInfinity)) = Some NegInfinity
   \<and> handleSearchKnowledge ''t2'' (searchFiles (Some NegInfinity)) store2 = Inr []"
proof -
  have l: "q_limit (searchFiles (Some (Finite (- (3 / 2))))) = Some (Finite (- (3 / 2)))"
    and m: "q_limit (searchFiles (Some NegInfinity)) = Some NegInfinity"
    and n: "q_limit (searchFiles (Some (Finite (- (1 / 4))))) = Some (Finite (- (1 / 4)))"
    by (simp_all add: searchFiles_def)
  have q: "(- (3 / 2) :: rat) \<le> - 1" by simp
  have f: "\<lfloor>3 / 2 :: rat\<rfloor> = 1" by (simp add: floor_eq_iff)
  note c = collect_naming_files[of "Some (Finite (- (3 / 2)))" "''t2''"]
  note d = collect_naming_files[of "Some NegInfinity" "''t2''"]
  note e = collect_naming_files[of "Some (Finite (- (1 / 4)))" "''t2''"]
  from negative_limit_drops_truncated[of store2 "searchFiles (Some (Finite (- (3 / 2))))" "''t2''"
         "[\<lparr>res_item = item1, res_score = 10\<rparr>, \<lparr>res_item = item2, res_score = 20\<rparr>]" "- (3 / 2)"]
    negative_limit_drops_truncated[of store2 "searchFiles (Some NegInfinity)" "''t2''"
         "[\<lparr>res_item = item1, res_score = 10\<rparr>, \<lparr>res_item = item2, res_score = 20\<rparr>]" "- (3 / 2)"]
    negative_limit_drops_truncated[of store2 "searchFiles (Some (Finite (- (1 / 4))))" "''t2''"
         "[\<lparr>res_item = item1, res_score = 10\<rparr>, \<lparr>res_item = item2, res_score = 20\<rparr>]" "- (1 / 4)"]
    c d e l m n q
  show ?thesis
    by (simp add: f sort_naming_files store2_wellTyped)
qed

text \<open>The claim as stated fails for a limit with a fraction: at -1/2 the two matches are more
  than the magnitude of the limit, and the search returns none of them.\<close>

theorem negative_limit_fraction_counterexample:
  "q_limit (searchFiles (Some (Finite (- (1 / 2))))) = Some (Finite (- (1 / 2)))
   \<and> (- (1 / 2) :: rat) < 0
   \<and> collectResults store2 (searchScope (searchFiles (Some (Finite (- (1 / 2))))))
        (q_tags (searchFiles (Some (Finite (- (1 / 2))))))
        (tokenize (query (searchFiles (Some (Finite (- (1 / 2)))))))
        (items (loadIndex ''t2'' store2)) []
       = Inr [\<lparr>res_item = item1, res_score = 10\<rparr>, \<lparr>res_item = item2, res_score = 20\<rparr>]
   \<and> \<bar>- (1 / 2) :: rat\<bar> < 2
   \<and> handleSearchKnowledge ''t2'' (searchFiles (Some (Finite (- (1 / 2))))) store2 = Inr []"
proof -
  have l: "q_limit (searchFiles (Some (Finite (- (1 / 2))))) = Some (Finite (- (1 / 2)))"
    by (simp add: searchFiles_def)
  note c = collect_naming_files[of "Some (Finite (- (1 / 2)))" "''t2''"]
  have s: "slice xs (Finite 0) (Finite (- (1 / 2))) = []" for xs :: "SearchResult list"
    by (rule slice_negative_fraction) simp_all
  have "handleSearchKnowledge ''t2'' (searchFiles (Some (Finite (- (1 / 2))))) store2 = Inr []"
    using c l by (simp add: handleSearchKnowledge_def Let_def searchScope_def s)
  with l c show ?thesis by simp
qed

end
